theory Spec2Isabelle
  imports Main "HOL-Library.Sublist" "HOL-Library.Multiset"
begin

section \<open>Evolution goals (src/.ai/evolution/threads.py)\<close>

text \<open>
  An \<open>EvolutionGoal\<close> object. Python strings are \<open>string\<close>, Python's unbounded
  integers are \<open>int\<close>, and an attribute that may hold \<open>None\<close> is an \<open>option\<close>.
  The status is an arbitrary Python string in the source (the four values
  \<open>pending\<close>, \<open>in_progress\<close>, \<open>completed\<close>, \<open>blocked\<close> are a convention
  of a comment only), so it stays a string here. Every reading of the clock,
  \<open>datetime.datetime.now().isoformat()\<close>, is the parameter \<open>now\<close> of the operation
  that reads it.
\<close>

record evolution_goal =
  goal_id :: string
  goal_name :: string
  goal_description :: string
  success_criteria :: "string list"
  priority :: int
  dependencies :: "string list"
  estimated_steps :: "int option"
  status :: string
  progress :: int
  goal_created_at :: string
  started_at :: "string option"
  completed_at :: "string option"
  last_updated :: string
  goal_evolution_thread :: "string option"

text \<open>Truth value of an \<open>Optional[str]\<close>: \<open>None\<close> and the empty string are false.\<close>

definition truthy_str :: "string option \<Rightarrow> bool" where
  "truthy_str s = (case s of None \<Rightarrow> False | Some v \<Rightarrow> v \<noteq> [])"

text \<open>\<open>EvolutionGoal.__init__\<close>: the priority is clamped to 1..10, a goal starts pending.\<close>

definition new_goal ::
  "string \<Rightarrow> string \<Rightarrow> string \<Rightarrow> string \<Rightarrow> string list \<Rightarrow> int \<Rightarrow> string list \<Rightarrow> int option
     \<Rightarrow> evolution_goal" where
  "new_goal now gid nm descr criteria prio deps est =
     \<lparr> goal_id = gid, goal_name = nm, goal_description = descr, success_criteria = criteria,
       priority = min 10 (max 1 prio), dependencies = deps, estimated_steps = est,
       status = ''pending'', progress = 0, goal_created_at = now, started_at = None,
       completed_at = None, last_updated = now, goal_evolution_thread = None \<rparr>"

text \<open>
  \<open>EvolutionGoal.update_progress\<close>, lines 116 to 119: the clamped progress is stored,
  a truthy \<open>status\<close> argument is stored, \<open>last_updated\<close> is stamped.
\<close>

definition store_progress :: "string \<Rightarrow> evolution_goal \<Rightarrow> int \<Rightarrow> string option \<Rightarrow> evolution_goal" where
  "store_progress now self p st =
     (let g1 = self\<lparr>progress := min 100 (max 0 p)\<rparr>;
          g2 = (case st of
                  None \<Rightarrow> g1
                | Some v \<Rightarrow> if v \<noteq> [] then g1\<lparr>status := v\<rparr> else g1)
      in g2\<lparr>last_updated := now\<rparr>)"

text \<open>
  \<open>EvolutionGoal.update_progress\<close>, whole: after the stores above, lines 121 to 127
  derive the status from the \<^emph>\<open>argument\<close> \<open>p\<close> (not from the clamped value stored).
\<close>

definition update_progress :: "string \<Rightarrow> evolution_goal \<Rightarrow> int \<Rightarrow> string option \<Rightarrow> evolution_goal" where
  "update_progress now self p st =
     (let g = store_progress now self p st
      in if p = 100 \<and> status g \<noteq> ''completed''
         then g\<lparr>status := ''completed'', completed_at := Some now\<rparr>
         else if 0 < p \<and> status g = ''pending''
         then (let g' = g\<lparr>status := ''in_progress''\<rparr>
               in if \<not> truthy_str (started_at g') then g'\<lparr>started_at := Some now\<rparr> else g')
         else g)"

section \<open>Python builtins used by the source\<close>

text \<open>
  \<open>sorted(xs, key=f, reverse=True)\<close> and \<open>xs.sort(key=f, reverse=True)\<close>: Python's sort is
  stable, also with \<open>reverse=True\<close>, so the result is in descending key order and
  elements with equal keys keep their input order. That is an insertion sort on the
  negated key.
\<close>

definition py_sorted_rev :: "('a \<Rightarrow> int) \<Rightarrow> 'a list \<Rightarrow> 'a list" where
  "py_sorted_rev key xs = sort_key (\<lambda>x. - key x) xs"

text \<open>\<open>sep.join(xs)\<close>.\<close>

fun join :: "string \<Rightarrow> string list \<Rightarrow> string" where
  "join sep [] = []"
| "join sep [x] = x"
| "join sep (x # y # ys) = x @ sep @ join sep (y # ys)"

text \<open>
  \<open>s.replace(a, b)\<close> for one-character ASCII \<open>a\<close>, \<open>b\<close>. A \<open>string\<close> is the UTF-8 bytes of
  the Python string; an ASCII byte never occurs inside the encoding of another
  character, so replacing the byte is replacing the character.
\<close>

definition replace :: "char \<Rightarrow> char \<Rightarrow> string \<Rightarrow> string" where
  "replace a b s = map (\<lambda>c. if c = a then b else c) s"

text \<open>
  \<open>s.lower()\<close> is Python's Unicode case mapping, a table of the interpreter and not of
  this repository: the operations that call it take it as the parameter \<open>str_lower\<close>.
  On a string of ASCII characters only it is the function below, which is used for the
  concrete runs on ASCII names and for nothing else.
\<close>

definition ascii_lower_char :: "char \<Rightarrow> char" where
  "ascii_lower_char c =
     (let n = (of_char c :: nat) in if 65 \<le> n \<and> n \<le> 90 then char_of (n + 32) else c)"

definition ascii_lower :: "string \<Rightarrow> string" where
  "ascii_lower s = map ascii_lower_char s"

text \<open>The decimal text of an integer, as an f-string prints it.\<close>

definition digit_char :: "nat \<Rightarrow> char" where
  "digit_char d = char_of (48 + d)"

fun str_nat :: "nat \<Rightarrow> string" where
  "str_nat n = (if n < 10 then [digit_char n] else str_nat (n div 10) @ [digit_char (n mod 10)])"

declare str_nat.simps [simp del]

definition str_int :: "int \<Rightarrow> string" where
  "str_int i = (if i < 0 then CHR ''-'' # str_nat (nat (- i)) else str_nat (nat i))"

text \<open>A JSON value, for the payloads the code stores and never inspects.\<close>

datatype json =
  JNull | JBool bool | JInt int | JStr string | JList "json list" | JDict "(string \<times> json) list"

section \<open>Evolution threads (src/.ai/evolution/threads.py)\<close>

record evolution_step =
  step_id :: string
  title :: string
  step_description :: string
  goals_advanced :: "string list"
  changes_made :: "json list"
  outcome :: string
  step_ai_participants :: "string list"
  timestamp :: string
  step_evolution_thread :: "string option"

record evolution_thread =
  thread_id :: string
  thread_name :: string
  thread_description :: string
  creator :: string
  strategy :: string
  thread_status :: string
  goals :: "evolution_goal list"
  steps :: "evolution_step list"
  thread_created_at :: string
  last_evolution :: "string option"
  ai_participants :: "string list"
  repository :: string


definition new_thread :: "string \<Rightarrow> string \<Rightarrow> string \<Rightarrow> string \<Rightarrow> string \<Rightarrow> string \<Rightarrow> evolution_thread" where
  "new_thread now tid nm descr cr strat =
     \<lparr> thread_id = tid, thread_name = nm, thread_description = descr, creator = cr,
       strategy = strat, thread_status = ''active'', goals = [], steps = [],
       thread_created_at = now, last_evolution = None, ai_participants = [cr],
       repository = ''sunheart-core'' \<rparr>"

text \<open>\<open>EvolutionThread.add_goal\<close>, \<open>add_step\<close>, \<open>add_ai_participant\<close>.\<close>

definition add_goal :: "evolution_thread \<Rightarrow> evolution_goal \<Rightarrow> evolution_thread" where
  "add_goal self goal =
     self\<lparr>goals := goals self @ [goal\<lparr>goal_evolution_thread := Some (thread_id self)\<rparr>]\<rparr>"



text \<open>
  \<open>EvolutionThread.update_goal_progress\<close>: the loop stops at the first goal whose id
  matches and updates that one; the boolean is the value returned.
\<close>

fun update_first_goal ::
  "string \<Rightarrow> string \<Rightarrow> int \<Rightarrow> string option \<Rightarrow> evolution_goal list \<Rightarrow> evolution_goal list \<times> bool" where
  "update_first_goal now gid p st [] = ([], False)"
| "update_first_goal now gid p st (goal # rest) =
     (if goal_id goal = gid then (update_progress now goal p st # rest, True)
      else (case update_first_goal now gid p st rest of (rest', found) \<Rightarrow> (goal # rest', found)))"

definition update_goal_progress ::
  "string \<Rightarrow> evolution_thread \<Rightarrow> string \<Rightarrow> int \<Rightarrow> string option \<Rightarrow> evolution_thread \<times> bool" where
  "update_goal_progress now self gid p st =
     (case update_first_goal now gid p st (goals self) of
        (goals', found) \<Rightarrow> (self\<lparr>goals := goals'\<rparr>, found))"

text \<open>\<open>EvolutionThread.get_next_goals\<close>.\<close>

definition get_next_goals :: "evolution_thread \<Rightarrow> evolution_goal list" where
  "get_next_goals self =
     (let in_progress_goals = filter (\<lambda>goal. status goal = ''in_progress'') (goals self)
      in if in_progress_goals \<noteq> [] then py_sorted_rev priority in_progress_goals
         else
           (let completed_goals =
                  set (map goal_id (filter (\<lambda>goal. status goal = ''completed'') (goals self)));
                next_goals =
                  filter (\<lambda>goal. status goal = ''pending'' \<and>
                                 list_all (\<lambda>dep. dep \<in> completed_goals) (dependencies goal))
                         (goals self)
            in py_sorted_rev priority next_goals))"

section \<open>The thread store (class SelfEvolvingThreads)\<close>

text \<open>
  The repository is a store of parsed JSON documents keyed by path: a thread file
  holds what \<open>to_dict\<close> wrote, the index file its list of summaries. Reads of a path
  never written give \<open>None\<close>; writes succeed.
\<close>

record index_entry =
  index_thread_id :: string
  index_name :: string
  index_status :: string
  index_created_at :: string
  index_updated_at :: string

record active_index =
  threads :: "index_entry list"
  index_last_updated :: string

record thread_store =
  thread_files :: "string \<rightharpoonup> evolution_thread"
  active_threads_index :: "active_index option"

definition THREADS_DIRECTORY :: string where
  "THREADS_DIRECTORY = ''.ai/evolution/threads''"

definition thread_path :: "string \<Rightarrow> string" where
  "thread_path tid = THREADS_DIRECTORY @ ''/'' @ tid @ ''.json''"

text \<open>
  \<open>EvolutionGoal.from_dict\<close> and \<open>EvolutionThread.from_dict\<close> go through the constructors,
  so a loaded goal has its priority clamped again; every other field is copied.
\<close>

definition goal_from_dict :: "evolution_goal \<Rightarrow> evolution_goal" where
  "goal_from_dict d = d\<lparr>priority := min 10 (max 1 (priority d))\<rparr>"

definition thread_from_dict :: "evolution_thread \<Rightarrow> evolution_thread" where
  "thread_from_dict d = d\<lparr>goals := map goal_from_dict (goals d)\<rparr>"

definition get_thread :: "thread_store \<Rightarrow> string \<Rightarrow> evolution_thread option" where
  "get_thread store tid = map_option thread_from_dict (thread_files store (thread_path tid))"

definition load_active_threads_index :: "string \<Rightarrow> thread_store \<Rightarrow> active_index" where
  "load_active_threads_index now store =
     (case active_threads_index store of
        Some idx \<Rightarrow> idx
      | None \<Rightarrow> \<lparr> threads = [], index_last_updated = now \<rparr>)"

text \<open>
  \<open>update_thread\<close>: the loop over the index updates the first entry of the thread
  and breaks; when there is none an entry is appended.
\<close>

fun update_index_entry :: "string \<Rightarrow> evolution_thread \<Rightarrow> index_entry list \<Rightarrow> index_entry list \<times> bool" where
  "update_index_entry now thread [] = ([], False)"
| "update_index_entry now thread (t # ts) =
     (if index_thread_id t = thread_id thread
      then (t\<lparr>index_name := thread_name thread, index_status := thread_status thread,
               index_updated_at := now\<rparr> # ts, True)
      else (case update_index_entry now thread ts of (ts', updated) \<Rightarrow> (t # ts', updated)))"

definition update_thread :: "string \<Rightarrow> thread_store \<Rightarrow> evolution_thread \<Rightarrow> thread_store" where
  "update_thread now store thread =
     (let store1 = store\<lparr>thread_files := (thread_files store)(thread_path (thread_id thread) \<mapsto> thread)\<rparr>;
          idx = load_active_threads_index now store1
      in case update_index_entry now thread (threads idx) of
           (ts, updated) \<Rightarrow>
             (let ts' = (if updated then ts
                         else ts @ [\<lparr> index_thread_id = thread_id thread,
                                      index_name = thread_name thread,
                                      index_status = thread_status thread,
                                      index_created_at = thread_created_at thread,
                                      index_updated_at = now \<rparr>])
              in store1\<lparr>active_threads_index :=
                          Some \<lparr> threads = ts', index_last_updated = now \<rparr>\<rparr>))"

text \<open>
  \<open>add_evolution_step\<close>, lines 609 to 615. The inner loop visits the goal objects of
  the thread in order and reads the progress the visited object has at that moment;
  \<open>thread.update_goal_progress\<close> then updates the first goal of that id.
\<close>

definition advance_goal_at :: "string \<Rightarrow> string \<Rightarrow> evolution_thread \<Rightarrow> nat \<Rightarrow> evolution_thread" where
  "advance_goal_at now gid thread j =
     (let goal = goals thread ! j
      in if goal_id goal = gid
         then fst (update_goal_progress now thread gid (min 100 (progress goal + 10)) None)
         else thread)"

definition advance_goal :: "string \<Rightarrow> evolution_thread \<Rightarrow> string \<Rightarrow> evolution_thread" where
  "advance_goal now thread gid =
     foldl (advance_goal_at now gid) thread [0 ..< length (goals thread)]"

definition advance_goals :: "string \<Rightarrow> string list \<Rightarrow> evolution_thread \<Rightarrow> evolution_thread" where
  "advance_goals now advanced thread = foldl (advance_goal now) thread advanced"


text \<open>\<open>SelfEvolvingThreads.update_goal_progress\<close>.\<close>

definition threads_update_goal_progress ::
  "string \<Rightarrow> thread_store \<Rightarrow> string \<Rightarrow> string \<Rightarrow> int \<Rightarrow> string option \<Rightarrow> thread_store \<times> bool" where
  "threads_update_goal_progress now store tid gid p st =
     (case get_thread store tid of
        None \<Rightarrow> (store, False)
      | Some thread \<Rightarrow>
          (case update_goal_progress now thread gid p st of
             (thread', found) \<Rightarrow>
               if found then (update_thread now store thread', True) else (store, False)))"

section \<open>The protocol harmonizer (src/.ai/protocols/harmonizer.py)\<close>

text \<open>
  A protocol schema is a Python dict whose keys may be missing: each key the code reads
  is an optional field, \<open>None\<close> when the key is absent. The field types are those of
  class \<open>ProtocolSchema\<close>.
\<close>

record protocol_schema =
  schema_id :: "string option"
  name :: "string option"
  version :: "string option"
  author :: "string option"
  description :: "string option"
  endpoints :: "json option"
  message_format :: "json option"
  capabilities :: "string list option"
  compatibility :: "string list option"
  created_at :: "string option"
  usage_count :: "int option"
  last_used :: "string option"
  last_used_by :: "string option"

text \<open>\<open>key in schema\<close>, and the truth value of the dict (false when it has no key).\<close>

definition has_key :: "protocol_schema \<Rightarrow> string \<Rightarrow> bool" where
  "has_key schema key =
     (if key = ''schema_id'' then schema_id schema \<noteq> None
      else if key = ''name'' then name schema \<noteq> None
      else if key = ''version'' then version schema \<noteq> None
      else if key = ''author'' then author schema \<noteq> None
      else if key = ''description'' then description schema \<noteq> None
      else if key = ''endpoints'' then endpoints schema \<noteq> None
      else if key = ''message_format'' then message_format schema \<noteq> None
      else if key = ''capabilities'' then capabilities schema \<noteq> None
      else if key = ''compatibility'' then compatibility schema \<noteq> None
      else if key = ''created_at'' then created_at schema \<noteq> None
      else if key = ''usage_count'' then usage_count schema \<noteq> None
      else if key = ''last_used'' then last_used schema \<noteq> None
      else if key = ''last_used_by'' then last_used_by schema \<noteq> None
      else False)"

definition all_keys :: "string list" where
  "all_keys = [''schema_id'', ''name'', ''version'', ''author'', ''description'', ''endpoints'',
     ''message_format'', ''capabilities'', ''compatibility'', ''created_at'', ''usage_count'',
     ''last_used'', ''last_used_by'']"

definition truthy_schema :: "protocol_schema \<Rightarrow> bool" where
  "truthy_schema schema = list_ex (has_key schema) all_keys"

text \<open>The documents of the registry, the primary pointer and the negotiation log.\<close>

record registry_entry =
  entry_schema_id :: string
  entry_name :: string
  entry_version :: string
  entry_author :: string
  entry_path :: string

record registry =
  protocols :: "registry_entry list"
  registry_last_updated :: "string option"

record primary_pointer =
  primary_protocol :: string
  decided_at :: string
  reason :: string
  decided_by :: string

record negotiation_event =
  event_timestamp :: string
  event_type :: string
  event_description :: string
  actor :: string

text \<open>
  The repository as the harmonizer sees it: parsed JSON documents keyed by path, one
  registry, one primary pointer, one log, and the schema files. A path never written
  reads as \<open>None\<close> (\<open>_load_file\<close> returns \<open>None\<close>); writes succeed.
\<close>

record harmonizer_store =
  registry_file :: "registry option"
  schema_files :: "string \<rightharpoonup> protocol_schema"
  primary_file :: "primary_pointer option"
  negotiation_log :: "negotiation_event list option"

definition PROTOCOL_SCHEMAS_PATH :: string where
  "PROTOCOL_SCHEMAS_PATH = ''.ai/protocols/schemas''"

definition schema_path :: "string \<Rightarrow> string" where
  "schema_path sid = PROTOCOL_SCHEMAS_PATH @ ''/'' @ sid @ ''.json''"

text \<open>\<open>DEFAULT_PROTOCOL\<close>.\<close>

definition DEFAULT_PROTOCOL :: protocol_schema where
  "DEFAULT_PROTOCOL =
     \<lparr> schema_id = Some ''builder_core_standard_v1'',
       name = Some ''Builder Core Standard Protocol'',
       version = Some ''1.0.0'',
       author = Some ''BuilderCore'',
       description = Some ''Standard communication protocol for Builder Core AI systems'',
       endpoints = Some (JDict
         [(''ai_collaboration'', JDict
             [(''path'', JStr ''/ai-collaboration''),
              (''actions'', JList [JStr ''contribute'', JStr ''discuss'', JStr ''evolve''])]),
          (''self_evolving_threads'', JDict
             [(''path'', JStr ''/ai-threads''),
              (''actions'', JList [JStr ''create'', JStr ''start'', JStr ''stop'', JStr ''list'',
                                   JStr ''trigger''])])]),
       message_format = Some (JDict
         [(''structure'', JDict
             [(''id'', JStr ''string''),
              (''timestamp'', JStr ''string (ISO format)''),
              (''sender'', JStr ''string''),
              (''recipient'', JStr ''string''),
              (''type'', JStr ''string''),
              (''content'', JStr ''object''),
              (''references'', JStr ''array of string'')]),
          (''types'', JList [JStr ''message'', JStr ''query'', JStr ''response'', JStr ''action'',
                             JStr ''event''])]),
       capabilities = Some [''contribution_tracking'', ''multi_ai_discussion'',
                            ''evolution_tracking'', ''thread_management''],
       compatibility = None, created_at = None, usage_count = None, last_used = None,
       last_used_by = None \<rparr>"

definition DEFAULT_SCHEMA_ID :: string where
  "DEFAULT_SCHEMA_ID = ''builder_core_standard_v1''"

text \<open>\<open>_load_registry\<close>: a registry that cannot be read is \<open>{"protocols": []}\<close>.\<close>

definition load_registry :: "harmonizer_store \<Rightarrow> registry" where
  "load_registry store =
     (case registry_file store of
        Some r \<Rightarrow> r
      | None \<Rightarrow> \<lparr> protocols = [], registry_last_updated = None \<rparr>)"

text \<open>\<open>_log_negotiation_event\<close>.\<close>

definition log_negotiation_event ::
  "string \<Rightarrow> harmonizer_store \<Rightarrow> string \<Rightarrow> string \<Rightarrow> string \<Rightarrow> harmonizer_store" where
  "log_negotiation_event now store etype descr act =
     (let events = (case negotiation_log store of Some evs \<Rightarrow> evs | None \<Rightarrow> []);
          event = \<lparr> event_timestamp = now, event_type = etype, event_description = descr,
                    actor = act \<rparr>
      in store\<lparr>negotiation_log := Some (events @ [event])\<rparr>)"

text \<open>\<open>set_primary_protocol\<close>: the new store and the pair returned.\<close>

definition set_primary_protocol ::
  "string \<Rightarrow> harmonizer_store \<Rightarrow> string \<Rightarrow> string \<Rightarrow> string \<Rightarrow> harmonizer_store \<times> bool \<times> string" where
  "set_primary_protocol now store sid rsn by_whom =
     (if \<not> list_ex (\<lambda>protocol. entry_schema_id protocol = sid) (protocols (load_registry store))
      then (store, False, ''Protocol schema '' @ sid @ '' not found in registry'')
      else
        (let primary = \<lparr> primary_protocol = sid, decided_at = now, reason = rsn,
                         decided_by = by_whom \<rparr>;
             store1 = store\<lparr>primary_file := Some primary\<rparr>;
             store2 = log_negotiation_event now store1 ''primary_change''
                        (''Primary protocol set to '' @ sid @ '' by '' @ by_whom @ '': '' @ rsn)
                        by_whom
         in (store2, True, ''Primary protocol set to '' @ sid)))"

text \<open>
  \<open>_negotiate_primary_protocol\<close>. An exception anywhere in its body is caught by its
  own \<open>except\<close>, which only logs: the store is then what it was. The exceptions of the
  body are the two \<open>KeyError\<close> of \<open>schema["schema_id"]\<close> and \<open>schema["name"]\<close>, and the
  \<open>IndexError\<close> of \<open>scores[0]\<close> on an empty list.
\<close>

datatype py_exception = KeyError string | IndexError

record score_entry =
  scored_schema_id :: string
  scored_name :: string
  score :: int

text \<open>The loop that loads the full schemas: a file that does not load, or loads as an
  empty dict, is skipped.\<close>

fun load_schemas :: "harmonizer_store \<Rightarrow> registry_entry list \<Rightarrow> protocol_schema list" where
  "load_schemas store [] = []"
| "load_schemas store (protocol # rest) =
     (case schema_files store (schema_path (entry_schema_id protocol)) of
        None \<Rightarrow> load_schemas store rest
      | Some schema \<Rightarrow>
          if truthy_schema schema then schema # load_schemas store rest
          else load_schemas store rest)"

text \<open>The body of the scoring loop for one schema.\<close>

definition score_schema :: "string option \<Rightarrow> protocol_schema \<Rightarrow> py_exception + score_entry" where
  "score_schema current_primary_id schema =
     (let s0 = 0;
          s1 = s0 + int (length (case capabilities schema of Some cs \<Rightarrow> cs | None \<Rightarrow> []));
          s2 = s1 + (case usage_count schema of Some n \<Rightarrow> n | None \<Rightarrow> 0) * 2;
          s3 = s2 + int (length (case compatibility schema of Some cs \<Rightarrow> cs | None \<Rightarrow> [])) * 3
      in case schema_id schema of
           None \<Rightarrow> Inl (KeyError ''schema_id'')
         | Some sid \<Rightarrow>
             (let s4 = (if sid = DEFAULT_SCHEMA_ID then s3 + 5 else s3);
                  s5 = (if Some sid = current_primary_id then s4 + 10 else s4)
              in case name schema of
                   None \<Rightarrow> Inl (KeyError ''name'')
                 | Some nm \<Rightarrow>
                     Inr \<lparr> scored_schema_id = sid, scored_name = nm, score = s5 \<rparr>))"

fun score_schemas :: "string option \<Rightarrow> protocol_schema list \<Rightarrow> py_exception + score_entry list" where
  "score_schemas current_primary_id [] = Inr []"
| "score_schemas current_primary_id (schema # rest) =
     (case score_schema current_primary_id schema of
        Inl e \<Rightarrow> Inl e
      | Inr entry \<Rightarrow>
          (case score_schemas current_primary_id rest of
             Inl e \<Rightarrow> Inl e
           | Inr entries \<Rightarrow> Inr (entry # entries)))"

definition negotiation_reason :: "int \<Rightarrow> string" where
  "negotiation_reason points =
     ''Automatic negotiation: highest scoring protocol ('' @ str_int points @ '' points)''"

definition negotiate_primary_protocol :: "string \<Rightarrow> harmonizer_store \<Rightarrow> harmonizer_store" where
  "negotiate_primary_protocol now store =
     (let protocols = protocols (load_registry store)
      in if length protocols \<le> 1 then store
         else
           (let schemas = load_schemas store protocols;
                current_primary_id = map_option primary_protocol (primary_file store)
            in case score_schemas current_primary_id schemas of
                 Inl e \<Rightarrow> store
               | Inr scores \<Rightarrow>
                   (case py_sorted_rev score scores of
                      [] \<Rightarrow> store
                    | best # _ \<Rightarrow>
                        if Some (scored_schema_id best) \<noteq> current_primary_id
                        then fst (set_primary_protocol now store (scored_schema_id best)
                                    (negotiation_reason (score best)) ''ProtocolHarmonizer'')
                        else store)))"

text \<open>
  \<open>register_protocol\<close>: the new store and the pair returned. The id derived from name
  and version (with \<open>str_lower\<close> for \<open>.lower()\<close>) is stored into the schema; the registry
  is read through \<open>_load_registry\<close>. A \<open>KeyError\<close> of \<open>schema['name']\<close>, \<open>schema['version']\<close> or
  \<open>schema['author']\<close> would be caught by the outer \<open>except\<close> and returned as a message;
  after the validation these keys are present.
\<close>

definition required_fields :: "string list" where
  "required_fields = [''name'', ''version'', ''author'', ''description'', ''endpoints'',
     ''message_format'', ''capabilities'']"

definition missing_fields :: "protocol_schema \<Rightarrow> string list" where
  "missing_fields schema = filter (\<lambda>field. \<not> has_key schema field) required_fields"

definition derived_schema_id :: "(string \<Rightarrow> string) \<Rightarrow> string \<Rightarrow> string \<Rightarrow> string" where
  "derived_schema_id str_lower nm ver =
     replace CHR '' '' CHR ''_'' (str_lower nm) @ ''_'' @ replace CHR ''.'' CHR ''_'' ver"

definition registration_error :: "string \<Rightarrow> string" where
  "registration_error key = ''Error registering protocol: '' @ [CHR 0x27] @ key @ [CHR 0x27]"

definition register_protocol ::
  "(string \<Rightarrow> string) \<Rightarrow> string \<Rightarrow> harmonizer_store \<Rightarrow> protocol_schema \<Rightarrow> string
     \<Rightarrow> harmonizer_store \<times> bool \<times> string" where
  "register_protocol str_lower now store schema registering_ai =
     (let missing = missing_fields schema
      in if missing \<noteq> []
         then (store, False, ''Schema missing required fields: '' @ join '', '' missing)
         else
           (case name schema of
              None \<Rightarrow> (store, False, registration_error ''name'')
            | Some nm \<Rightarrow>
           (case version schema of
              None \<Rightarrow> (store, False, registration_error ''version'')
            | Some ver \<Rightarrow>
           (case author schema of
              None \<Rightarrow> (store, False, registration_error ''author'')
            | Some auth \<Rightarrow>
                (let sid = (case schema_id schema of
                              None \<Rightarrow> derived_schema_id str_lower nm ver
                            | Some given \<Rightarrow> given);
                     schema1 = schema\<lparr>schema_id := Some sid\<rparr>;
                     reg = load_registry store
                 in if list_ex (\<lambda>existing. entry_schema_id existing = sid) (protocols reg)
                    then (store, False, ''Protocol schema with ID '' @ sid @ '' already exists'')
                    else
                      (let schema2 = (if compatibility schema1 = None
                                      then schema1\<lparr>compatibility := Some []\<rparr> else schema1);
                           schema3 = schema2\<lparr>created_at := Some now, usage_count := Some 0\<rparr>;
                           path = schema_path sid;
                           store1 = store\<lparr>schema_files := (schema_files store)(path \<mapsto> schema3)\<rparr>;
                           registry_entry = \<lparr> entry_schema_id = sid, entry_name = nm,
                                              entry_version = ver, entry_author = auth,
                                              entry_path = path \<rparr>;
                           reg' = reg\<lparr>protocols := protocols reg @ [registry_entry],
                                      registry_last_updated := Some now\<rparr>;
                           store2 = store1\<lparr>registry_file := Some reg'\<rparr>;
                           store3 = log_negotiation_event now store2 ''registration''
                                      (''Protocol '' @ [CHR 0x27] @ nm @ [CHR 0x27] @
                                       '' registered by '' @ registering_ai)
                                      registering_ai;
                           store4 = negotiate_primary_protocol now store3
                       in (store4, True,
                           ''Protocol schema '' @ sid @ '' registered successfully'')))))))"

section \<open>Concrete inputs\<close>

text \<open>A goal as \<open>EvolutionGoal.__init__\<close> leaves it, used for concrete runs.\<close>

definition example_goal :: evolution_goal where
  "example_goal = new_goal ''t0'' ''g1'' ''Goal'' ''A goal'' [] 5 [] None"

text \<open>Small threads for concrete runs.\<close>

definition pending_thread :: evolution_thread where
  "pending_thread =
     (new_thread ''t0'' ''th1'' ''Thread'' ''A thread'' ''ai-1'' ''incremental'')
       \<lparr>goals :=
          [(new_goal ''t0'' ''a'' ''A'' ''done'' [] 2 [] None)\<lparr>status := ''completed'', progress := 100\<rparr>,
           new_goal ''t0'' ''b'' ''B'' ''after a'' [] 3 [''a''] None,
           new_goal ''t0'' ''c'' ''C'' ''after a missing goal'' [] 9 [''zzz''] None,
           new_goal ''t0'' ''d'' ''D'' ''free'' [] 3 [] None,
           new_goal ''t0'' ''e'' ''E'' ''urgent'' [] 7 [] None]\<rparr>"

definition busy_thread :: evolution_thread where
  "busy_thread =
     (new_thread ''t0'' ''th2'' ''Thread'' ''A thread'' ''ai-1'' ''incremental'')
       \<lparr>goals :=
          [(new_goal ''t0'' ''a'' ''A'' ''running'' [] 2 [] None)\<lparr>status := ''in_progress'', progress := 10\<rparr>,
           new_goal ''t0'' ''b'' ''B'' ''free and urgent'' [] 9 [] None,
           (new_goal ''t0'' ''c'' ''C'' ''running'' [] 6 [] None)\<lparr>status := ''in_progress'', progress := 30\<rparr>]\<rparr>"



text \<open>A schema with every required field, one without \<open>capabilities\<close>, an empty store.\<close>

definition example_schema :: protocol_schema where
  "example_schema =
     \<lparr> schema_id = None, name = Some ''Mesh Protocol'', version = Some ''2.1'',
       author = Some ''ai-7'', description = Some ''Mesh messaging'',
       endpoints = Some (JDict []), message_format = Some (JDict []),
       capabilities = Some [''routing'', ''broadcast''], compatibility = None,
       created_at = None, usage_count = None, last_used = None, last_used_by = None \<rparr>"

definition incomplete_schema :: protocol_schema where
  "incomplete_schema = example_schema\<lparr>capabilities := None\<rparr>"

definition empty_store :: harmonizer_store where
  "empty_store =
     \<lparr> registry_file = None, schema_files = Map.empty, primary_file = None,
       negotiation_log = None \<rparr>"

section \<open>The negotiation as the specification states it\<close>

text \<open>
  The score of a schema in the specification's words: the number of capabilities, plus
  twice the usage count, plus three times the number of compatible schemas, plus 5 for
  the default schema, plus 10 for the current primary. An absent list counts as empty,
  an absent usage count as 0.
\<close>

definition negotiation_score :: "string option \<Rightarrow> protocol_schema \<Rightarrow> int" where
  "negotiation_score current_primary_id schema =
     int (length (case capabilities schema of Some cs \<Rightarrow> cs | None \<Rightarrow> []))
     + 2 * (case usage_count schema of Some n \<Rightarrow> n | None \<Rightarrow> 0)
     + 3 * int (length (case compatibility schema of Some cs \<Rightarrow> cs | None \<Rightarrow> []))
     + (if schema_id schema = Some DEFAULT_SCHEMA_ID then 5 else 0)
     + (if schema_id schema \<noteq> None \<and> schema_id schema = current_primary_id then 10 else 0)"

text \<open>
  A registry is consistent when every entry has its schema file and the file carries
  the entry's id and a name, as \<open>register_protocol\<close> writes them.
\<close>

definition entry_ok :: "harmonizer_store \<Rightarrow> registry_entry \<Rightarrow> bool" where
  "entry_ok store entry =
     (case schema_files store (schema_path (entry_schema_id entry)) of
        None \<Rightarrow> False
      | Some schema \<Rightarrow> schema_id schema = Some (entry_schema_id entry) \<and> name schema \<noteq> None)"

definition registry_consistent :: "harmonizer_store \<Rightarrow> bool" where
  "registry_consistent store = list_all (entry_ok store) (protocols (load_registry store))"

text \<open>The registry of the specification's example: schemas A and B, no primary.\<close>

definition schema_A :: protocol_schema where
  "schema_A =
     \<lparr> schema_id = Some ''A'', name = Some ''Protocol A'', version = Some ''1'',
       author = Some ''ai-1'', description = Some ''first'', endpoints = Some (JDict []),
       message_format = Some (JDict []), capabilities = Some [''c1'', ''c2''],
       compatibility = Some [], created_at = Some ''t0'', usage_count = Some 0,
       last_used = None, last_used_by = None \<rparr>"

definition schema_B :: protocol_schema where
  "schema_B =
     \<lparr> schema_id = Some ''B'', name = Some ''Protocol B'', version = Some ''1'',
       author = Some ''ai-2'', description = Some ''second'', endpoints = Some (JDict []),
       message_format = Some (JDict []), capabilities = Some [''c1''],
       compatibility = Some [], created_at = Some ''t0'', usage_count = Some 5,
       last_used = Some ''t0'', last_used_by = Some ''ai-3'' \<rparr>"

definition example_registry :: harmonizer_store where
  "example_registry =
     \<lparr> registry_file = Some
         \<lparr> protocols =
             [\<lparr> entry_schema_id = ''A'', entry_name = ''Protocol A'', entry_version = ''1'',
                 entry_author = ''ai-1'', entry_path = schema_path ''A'' \<rparr>,
              \<lparr> entry_schema_id = ''B'', entry_name = ''Protocol B'', entry_version = ''1'',
                 entry_author = ''ai-2'', entry_path = schema_path ''B'' \<rparr>],
           registry_last_updated = Some ''t0'' \<rparr>,
       schema_files = [schema_path ''A'' \<mapsto> schema_A, schema_path ''B'' \<mapsto> schema_B],
       primary_file = None,
       negotiation_log = None \<rparr>"

section \<open>Properties of update_progress\<close>

lemma status_store_progress:
  "status (store_progress now g p st) =
     (case st of None \<Rightarrow> status g | Some v \<Rightarrow> if v \<noteq> [] then v else status g)"
  by (simp add: store_progress_def Let_def split: option.splits)

lemma progress_store_progress: "progress (store_progress now g p st) = min 100 (max 0 p)"
  by (simp add: store_progress_def Let_def split: option.splits)

lemma completed_at_store_progress: "completed_at (store_progress now g p st) = completed_at g"
  by (simp add: store_progress_def Let_def split: option.splits)

lemma progress_update_progress: "progress (update_progress now g p st) = min 100 (max 0 p)"
  by (simp add: update_progress_def Let_def progress_store_progress)

lemma status_update_progress:
  "status (update_progress now g p st) =
     (if p = 100 then ''completed''
      else if 0 < p \<and> status (store_progress now g p st) = ''pending'' then ''in_progress''
      else status (store_progress now g p st))"
  by (auto simp: update_progress_def Let_def)

lemma completed_at_update_progress:
  "completed_at (update_progress now g p st) =
     (if p = 100 \<and> status (store_progress now g p st) \<noteq> ''completed'' then Some now
      else completed_at g)"
  by (auto simp: update_progress_def Let_def completed_at_store_progress)

lemma goal_id_update_progress: "goal_id (update_progress now g p st) = goal_id g"
  by (simp add: update_progress_def store_progress_def Let_def split: option.splits)

lemma completed_at_update_progress_None:
  "completed_at (update_progress now g p None) =
     (if p = 100 \<and> status g \<noteq> ''completed'' then Some now else completed_at g)"
  by (simp add: completed_at_update_progress status_store_progress)

text \<open>
  C1 (amended). After \<open>update_progress\<close> with an argument of at most 100, the goal has
  progress 100 exactly when its status is \<open>completed\<close>, provided the argument is 100
  or the status in force after the explicit status was stored (the supplied status,
  else the goal's previous one) is not \<open>completed\<close>. Arguments above 100 are left out.
\<close>

theorem update_progress_completed_iff:
  assumes "p \<le> 100"
    and "p = 100 \<or> status (store_progress now g p st) \<noteq> ''completed''"
  shows "progress (update_progress now g p st) = 100
           \<longleftrightarrow> status (update_progress now g p st) = ''completed''"
proof (cases "p = 100")
  case True
  then show ?thesis
    by (simp add: progress_update_progress status_update_progress)
next
  case False
  with assms have lt: "p < 100" and nc: "status (store_progress now g p st) \<noteq> ''completed''"
    by auto
  from lt have "progress (update_progress now g p st) \<noteq> 100"
    by (simp add: progress_update_progress)
  moreover from lt nc have "status (update_progress now g p st) \<noteq> ''completed''"
    by (simp add: status_update_progress)
  ultimately show ?thesis by simp
qed

theorem update_progress_completed_iff_witness:
  "(40::int) \<le> 100
   \<and> status (store_progress ''t1'' example_goal 40 None) \<noteq> ''completed''
   \<and> (progress (update_progress ''t1'' example_goal 40 None) = 100
        \<longleftrightarrow> status (update_progress ''t1'' example_goal 40 None) = ''completed'')"
proof -
  have h1: "(40::int) \<le> 100" by simp
  have h2: "status (store_progress ''t1'' example_goal 40 None) \<noteq> ''completed''"
    by (simp add: status_store_progress example_goal_def new_goal_def)
  from h2 have h3: "(40::int) = 100 \<or> status (store_progress ''t1'' example_goal 40 None) \<noteq> ''completed''"
    by simp
  from update_progress_completed_iff [OF h1 h3] h1 h2 show ?thesis by blast
qed

theorem update_progress_completed_iff_counterexample:
  "\<not> (progress (update_progress ''t1'' example_goal 50 (Some ''completed'')) = 100
        \<longleftrightarrow> status (update_progress ''t1'' example_goal 50 (Some ''completed'')) = ''completed'')"
  by (simp add: progress_update_progress status_update_progress status_store_progress)

text \<open>
  C5 (amended). With an explicitly supplied non-empty status, \<open>update_progress\<close> leaves
  the goal's status equal to the supplied status unless the derivation from the
  progress argument fires after it: an argument of 100 always ends in \<open>completed\<close>,
  and a positive argument with supplied status \<open>pending\<close> ends in \<open>in_progress\<close>.
\<close>

theorem update_progress_explicit_status:
  assumes "s \<noteq> []"
  shows "status (update_progress now g p (Some s)) =
           (if p = 100 then ''completed''
            else if 0 < p \<and> s = ''pending'' then ''in_progress''
            else s)"
  using assms by (simp add: status_update_progress status_store_progress)

theorem update_progress_explicit_status_witness:
  "''blocked'' \<noteq> [] \<and> status (update_progress ''t1'' example_goal 50 (Some ''blocked'')) = ''blocked''"
proof -
  have h: "''blocked'' \<noteq> []" by simp
  from update_progress_explicit_status [OF h, of "''t1''" example_goal 50] h
  show ?thesis by simp
qed

theorem update_progress_explicit_status_counterexample:
  "status (update_progress ''t1'' example_goal 100 (Some ''blocked'')) \<noteq> ''blocked''"
  by (simp add: status_update_progress)




text \<open>
  C10. For every goal whose status is not \<open>completed\<close> and every argument above 100,
  \<open>update_progress\<close> with no explicit status stores progress 100, does not set the
  status to \<open>completed\<close> and leaves \<open>completed_at\<close> as it was.
\<close>

theorem update_progress_above_100:
  assumes "status g \<noteq> ''completed''" and "100 < p"
  shows "progress (update_progress now g p None) = 100
       \<and> status (update_progress now g p None) \<noteq> ''completed''
       \<and> completed_at (update_progress now g p None) = completed_at g"
  using assms
  by (simp add: progress_update_progress status_update_progress status_store_progress
        completed_at_update_progress_None)

theorem update_progress_above_100_witness:
  "status example_goal \<noteq> ''completed'' \<and> (100::int) < 150
   \<and> progress (update_progress ''t1'' example_goal 150 None) = 100
   \<and> status (update_progress ''t1'' example_goal 150 None) = ''in_progress''
   \<and> completed_at (update_progress ''t1'' example_goal 150 None) = None"
proof -
  have h1: "status example_goal \<noteq> ''completed''"
    by (simp add: example_goal_def new_goal_def)
  have h2: "(100::int) < 150" by simp
  have s: "status (update_progress ''t1'' example_goal 150 None) = ''in_progress''"
    by (simp add: status_update_progress status_store_progress example_goal_def new_goal_def)
  have c: "completed_at example_goal = None"
    by (simp add: example_goal_def new_goal_def)
  from update_progress_above_100 [OF h1 h2, of "''t1''"] h1 h2 s c show ?thesis by simp
qed

section \<open>Properties of the descending stable sort\<close>

lemma mset_py_sorted_rev: "mset (py_sorted_rev key xs) = mset xs"
  by (simp add: py_sorted_rev_def)

lemma set_py_sorted_rev: "set (py_sorted_rev key xs) = set xs"
  by (simp add: py_sorted_rev_def)

lemma descending_py_sorted_rev: "sorted_wrt (\<lambda>a b. key b \<le> key a) (py_sorted_rev key xs)"
proof -
  have "sorted (map (\<lambda>x. - key x) (py_sorted_rev key xs))"
    unfolding py_sorted_rev_def by (rule sorted_sort_key)
  then show ?thesis
    by (simp add: sorted_map)
qed

lemma stable_py_sorted_rev:
  "filter (\<lambda>x. key x = k) (py_sorted_rev key xs) = filter (\<lambda>x. key x = k) xs"
proof -
  have "filter (\<lambda>x. - key x = - k) (sort_key (\<lambda>x. - key x) xs)
          = filter (\<lambda>x. - key x = - k) xs"
    by (rule sort_key_stable)
  then show ?thesis
    by (simp add: py_sorted_rev_def)
qed

section \<open>Properties of get_next_goals\<close>

text \<open>
  C3. In a thread with no goal in progress, \<open>get_next_goals\<close> returns exactly the
  pending goals all of whose dependencies are ids of completed goals of the thread,
  in descending order of priority, goals of equal priority in their input order.
\<close>

theorem get_next_goals_pending:
  assumes "\<forall>g \<in> set (goals th). status g \<noteq> ''in_progress''"
  shows "mset (get_next_goals th) =
           mset (filter (\<lambda>g. status g = ''pending'' \<and>
                   set (dependencies g) \<subseteq> {goal_id c | c. c \<in> set (goals th) \<and> status c = ''completed''})
                 (goals th))
       \<and> sorted_wrt (\<lambda>a b. priority b \<le> priority a) (get_next_goals th)
       \<and> (\<forall>k. filter (\<lambda>g. priority g = k) (get_next_goals th) =
                filter (\<lambda>g. priority g = k)
                  (filter (\<lambda>g. status g = ''pending'' \<and>
                     set (dependencies g) \<subseteq> {goal_id c | c. c \<in> set (goals th) \<and> status c = ''completed''})
                   (goals th)))"
proof -
  let ?completed = "{goal_id c | c. c \<in> set (goals th) \<and> status c = ''completed''}"
  let ?eligible = "\<lambda>g. status g = ''pending'' \<and> set (dependencies g) \<subseteq> ?completed"
  have none: "filter (\<lambda>goal. status goal = ''in_progress'') (goals th) = []"
    using assms by (simp add: filter_empty_conv)
  have completed: "set (map goal_id (filter (\<lambda>goal. status goal = ''completed'') (goals th))) = ?completed"
    by auto
  have "get_next_goals th =
          py_sorted_rev priority
            (filter (\<lambda>goal. status goal = ''pending'' \<and>
                       list_all (\<lambda>dep. dep \<in> ?completed) (dependencies goal)) (goals th))"
    unfolding get_next_goals_def Let_def none completed by simp
  also have "(\<lambda>goal. status goal = ''pending'' \<and>
                list_all (\<lambda>dep. dep \<in> ?completed) (dependencies goal)) = ?eligible"
    by (auto simp: list_all_iff)
  finally have eq: "get_next_goals th = py_sorted_rev priority (filter ?eligible (goals th))" .
  show ?thesis
    unfolding eq
    by (simp only: mset_py_sorted_rev descending_py_sorted_rev stable_py_sorted_rev simp_thms)
qed

theorem get_next_goals_pending_witness:
  "map goal_id (get_next_goals pending_thread) = [''e'', ''b'', ''d'']
   \<and> sorted_wrt (\<lambda>a b. priority b \<le> priority a) (get_next_goals pending_thread)"
proof -
  have h: "\<forall>g \<in> set (goals pending_thread). status g \<noteq> ''in_progress''"
    by (simp add: pending_thread_def new_thread_def new_goal_def)
  have r: "map goal_id (get_next_goals pending_thread) = [''e'', ''b'', ''d'']"
    by (simp add: get_next_goals_def py_sorted_rev_def pending_thread_def new_thread_def
          new_goal_def)
  from get_next_goals_pending [OF h] r show ?thesis by blast
qed

text \<open>
  C4. In a thread with at least one goal in progress, \<open>get_next_goals\<close> returns exactly
  the goals in progress, in descending order of priority, goals of equal priority in
  their input order; no pending goal is returned.
\<close>

theorem get_next_goals_in_progress:
  assumes "\<exists>g \<in> set (goals th). status g = ''in_progress''"
  shows "mset (get_next_goals th) = mset (filter (\<lambda>g. status g = ''in_progress'') (goals th))
       \<and> sorted_wrt (\<lambda>a b. priority b \<le> priority a) (get_next_goals th)
       \<and> (\<forall>k. filter (\<lambda>g. priority g = k) (get_next_goals th) =
                filter (\<lambda>g. priority g = k) (filter (\<lambda>g. status g = ''in_progress'') (goals th)))
       \<and> (\<forall>g \<in> set (get_next_goals th). status g \<noteq> ''pending'')"
proof -
  have some: "filter (\<lambda>goal. status goal = ''in_progress'') (goals th) \<noteq> []"
    using assms by (simp add: filter_empty_conv)
  then have eq: "get_next_goals th =
      py_sorted_rev priority (filter (\<lambda>goal. status goal = ''in_progress'') (goals th))"
    by (simp add: get_next_goals_def Let_def)
  have "\<forall>g \<in> set (get_next_goals th). status g = ''in_progress''"
    unfolding eq by (simp add: set_py_sorted_rev)
  then have np: "\<forall>g \<in> set (get_next_goals th). status g \<noteq> ''pending''"
    by auto
  have rest: "mset (get_next_goals th) = mset (filter (\<lambda>g. status g = ''in_progress'') (goals th))
       \<and> sorted_wrt (\<lambda>a b. priority b \<le> priority a) (get_next_goals th)
       \<and> (\<forall>k. filter (\<lambda>g. priority g = k) (get_next_goals th) =
                filter (\<lambda>g. priority g = k) (filter (\<lambda>g. status g = ''in_progress'') (goals th)))"
    unfolding eq
    by (simp only: mset_py_sorted_rev descending_py_sorted_rev stable_py_sorted_rev simp_thms)
  from rest np show ?thesis by blast
qed

theorem get_next_goals_in_progress_witness:
  "map goal_id (get_next_goals busy_thread) = [''c'', ''a'']
   \<and> sorted_wrt (\<lambda>a b. priority b \<le> priority a) (get_next_goals busy_thread)"
proof -
  have h: "\<exists>g \<in> set (goals busy_thread). status g = ''in_progress''"
    by (simp add: busy_thread_def new_thread_def new_goal_def)
  have r: "map goal_id (get_next_goals busy_thread) = [''c'', ''a'']"
    by (simp add: get_next_goals_def py_sorted_rev_def busy_thread_def new_thread_def
          new_goal_def)
  from get_next_goals_in_progress [OF h] r show ?thesis by blast
qed

section \<open>Properties of add_evolution_step\<close>

lemma update_first_goal_length: "length (fst (update_first_goal now gid p st gs)) = length gs"
  by (induction gs) (auto split: prod.splits)

lemma update_first_goal_distinct:
  "distinct (map goal_id gs) \<Longrightarrow>
   fst (update_first_goal now gid p st gs) =
     map (\<lambda>g. if goal_id g = gid then update_progress now g p st else g) gs"
proof (induction gs)
  case Nil
  then show ?case by simp
next
  case (Cons g gs)
  show ?case
  proof (cases "goal_id g = gid")
    case True
    from Cons.prems True have "gid \<notin> set (map goal_id gs)" by simp
    then have "\<forall>x \<in> set gs. goal_id x \<noteq> gid" by auto
    then have "map (\<lambda>g. if goal_id g = gid then update_progress now g p st else g) gs = gs"
      by (simp add: map_idI)
    with True show ?thesis by simp
  next
    case False
    with Cons show ?thesis by (simp add: case_prod_beta)
  qed
qed

lemma advance_goal_at_distinct:
  assumes "distinct (map goal_id (goals th))" and "j < length (goals th)"
  shows "advance_goal_at now gid th j =
           (if goal_id (goals th ! j) = gid
            then th\<lparr>goals := map (\<lambda>g. if goal_id g = gid then update_progress now g (min 100 (progress g + 10)) None else g) (goals th)\<rparr>
            else th)"
proof (cases "goal_id (goals th ! j) = gid")
  case False
  then show ?thesis by (simp add: advance_goal_at_def)
next
  case True
  have uniq: "\<And>g. g \<in> set (goals th) \<Longrightarrow> goal_id g = gid \<Longrightarrow> g = goals th ! j"
  proof -
    fix g assume "g \<in> set (goals th)" and gid: "goal_id g = gid"
    then obtain i where i: "i < length (goals th)" "goals th ! i = g"
      by (auto simp: in_set_conv_nth)
    with gid True assms have "map goal_id (goals th) ! i = map goal_id (goals th) ! j"
      by simp
    moreover have "i < length (map goal_id (goals th))" "j < length (map goal_id (goals th))"
      using i assms by simp_all
    ultimately have "i = j"
      using assms(1) nth_eq_iff_index_eq by blast
    with i show "g = goals th ! j" by simp
  qed
  have "fst (update_first_goal now gid (min 100 (progress (goals th ! j) + 10)) None (goals th))
        = map (\<lambda>g. if goal_id g = gid then update_progress now g (min 100 (progress (goals th ! j) + 10)) None else g) (goals th)"
    using assms(1) by (rule update_first_goal_distinct)
  also have "\<dots> = map (\<lambda>g. if goal_id g = gid then update_progress now g (min 100 (progress g + 10)) None else g) (goals th)"
    by (rule map_cong) (auto dest: uniq)
  finally show ?thesis
    using True by (simp add: advance_goal_at_def update_goal_progress_def Let_def case_prod_beta)
qed


lemma goal_id_advanced: "goal_id (update_progress now g (min 100 (progress g + 10)) None) = goal_id g"
  by (rule goal_id_update_progress)

lemma advance_indices_distinct:
  assumes "distinct (map goal_id (goals th))" and "distinct js"
    and "\<forall>j \<in> set js. j < length (goals th)"
  shows "foldl (advance_goal_at now gid) th js =
           (if \<exists>j \<in> set js. goal_id (goals th ! j) = gid
            then th\<lparr>goals := map (\<lambda>g. if goal_id g = gid then update_progress now g (min 100 (progress g + 10)) None else g) (goals th)\<rparr>
            else th)"
  using assms
proof (induction js arbitrary: th)
  case Nil
  then show ?case by simp
next
  case (Cons j js)
  let ?F = "\<lambda>g. if goal_id g = gid then update_progress now g (min 100 (progress g + 10)) None else g"
  have j: "j < length (goals th)" and js: "\<forall>i \<in> set js. i < length (goals th)"
    and dj: "j \<notin> set js" "distinct js"
    using Cons.prems by auto
  show ?case
  proof (cases "goal_id (goals th ! j) = gid")
    case False
    then have "advance_goal_at now gid th j = th"
      using Cons.prems(1) j by (simp add: advance_goal_at_distinct)
    with Cons.IH [of th] Cons.prems(1) dj js False show ?thesis
      by simp
  next
    case True
    let ?th' = "th\<lparr>goals := map ?F (goals th)\<rparr>"
    have step: "advance_goal_at now gid th j = ?th'"
      using Cons.prems(1) j True by (simp add: advance_goal_at_distinct)
    have ids: "map goal_id (goals ?th') = map goal_id (goals th)"
      by (simp add: goal_id_update_progress)
    have no_more: "\<not> (\<exists>i \<in> set js. goal_id (goals ?th' ! i) = gid)"
    proof
      assume "\<exists>i \<in> set js. goal_id (goals ?th' ! i) = gid"
      then obtain i where i: "i \<in> set js" "goal_id (goals ?th' ! i) = gid" by blast
      with js have il: "i < length (goals th)" by simp
      with i have "goal_id (goals th ! i) = gid"
        by (simp add: goal_id_update_progress split: if_splits)
      with True have "map goal_id (goals th) ! i = map goal_id (goals th) ! j"
        using il j by simp
      moreover have "i < length (map goal_id (goals th))" "j < length (map goal_id (goals th))"
        using il j by simp_all
      ultimately have "i = j"
        using Cons.prems(1) nth_eq_iff_index_eq by blast
      with i dj show False by simp
    qed
    have d': "distinct (map goal_id (goals ?th'))"
      unfolding ids by (rule Cons.prems(1))
    have js': "\<forall>i \<in> set js. i < length (goals ?th')"
      using js by simp
    have "foldl (advance_goal_at now gid) ?th' js = ?th'"
      using Cons.IH [OF d' dj(2) js'] by (simp only: no_more if_False)
    with step True show ?thesis by simp
  qed
qed

lemma advance_goal_distinct:
  assumes "distinct (map goal_id (goals th))"
  shows "advance_goal now th gid =
           th\<lparr>goals := map (\<lambda>g. if goal_id g = gid then update_progress now g (min 100 (progress g + 10)) None else g) (goals th)\<rparr>"
proof (cases "\<exists>j \<in> set [0 ..< length (goals th)]. goal_id (goals th ! j) = gid")
  case True
  with advance_indices_distinct [OF assms, of "[0 ..< length (goals th)]" now gid]
  show ?thesis by (simp add: advance_goal_def)
next
  case False
  then have "\<forall>j < length (goals th). goal_id (goals th ! j) \<noteq> gid"
    by simp
  then have "\<forall>g \<in> set (goals th). goal_id g \<noteq> gid"
    by (auto simp: in_set_conv_nth)
  then have "map (\<lambda>g. if goal_id g = gid then update_progress now g (min 100 (progress g + 10)) None else g) (goals th) = goals th"
    by (simp add: map_idI)
  with False advance_indices_distinct [OF assms, of "[0 ..< length (goals th)]" now gid]
  show ?thesis by (simp add: advance_goal_def)
qed

lemma advance_goals_distinct:
  assumes "distinct (map goal_id (goals th))" and "distinct advanced"
  shows "advance_goals now advanced th =
           th\<lparr>goals := map (\<lambda>g. if goal_id g \<in> set advanced then update_progress now g (min 100 (progress g + 10)) None else g) (goals th)\<rparr>"
  using assms
proof (induction advanced arbitrary: th)
  case Nil
  then show ?case by (simp add: advance_goals_def)
next
  case (Cons gid rest)
  let ?F = "\<lambda>g. if goal_id g = gid then update_progress now g (min 100 (progress g + 10)) None else g"
  let ?th' = "th\<lparr>goals := map ?F (goals th)\<rparr>"
  have step: "advance_goal now th gid = ?th'"
    using Cons.prems(1) by (rule advance_goal_distinct)
  have ids: "map goal_id (goals ?th') = map goal_id (goals th)"
    by (simp add: goal_id_update_progress)
  have d': "distinct (map goal_id (goals ?th'))"
    unfolding ids by (rule Cons.prems(1))
  have dr: "distinct rest"
    using Cons.prems(2) by simp
  have "advance_goals now (gid # rest) th = advance_goals now rest ?th'"
    using step by (simp add: advance_goals_def)
  also have "\<dots> = ?th'\<lparr>goals := map (\<lambda>g. if goal_id g \<in> set rest then update_progress now g (min 100 (progress g + 10)) None else g) (goals ?th')\<rparr>"
    by (rule Cons.IH [OF d' dr])
  also have "\<dots> = th\<lparr>goals := map (\<lambda>g. if goal_id g \<in> set (gid # rest) then update_progress now g (min 100 (progress g + 10)) None else g) (goals th)\<rparr>"
    using Cons.prems(2) by (auto simp: goal_id_update_progress)
  finally show ?case .
qed







lemma thread_id_advance_goals_distinct:
  assumes "distinct (map goal_id (goals th))" and "distinct advanced"
  shows "thread_id (advance_goals now advanced th) = thread_id th"
  using advance_goals_distinct [OF assms, of now] by simp






section \<open>Properties of register_protocol\<close>

lemma sublist_join: "x \<in> set xs \<Longrightarrow> sublist x (join sep xs)"
proof (induction sep xs rule: join.induct)
  case (1 sep)
  then show ?case by simp
next
  case (2 sep y)
  then show ?case by simp
next
  case (3 sep y z zs)
  show ?case
  proof (cases "x = y")
    case True
    then show ?thesis by simp
  next
    case False
    with 3 have "sublist x (join sep (z # zs))" by simp
    then obtain ps ss where "join sep (z # zs) = ps @ x @ ss"
      by (auto simp: sublist_def)
    then have "join sep (y # z # zs) = (y @ sep @ ps) @ x @ ss"
      by simp
    then show ?thesis
      unfolding sublist_def by blast
  qed
qed

lemma set_missing_fields:
  "set (missing_fields schema) = {f \<in> set required_fields. \<not> has_key schema f}"
  by (simp add: missing_fields_def)

text \<open>
  C8. Whenever one of the required fields \<open>name\<close>, \<open>version\<close>, \<open>author\<close>,
  \<open>description\<close>, \<open>endpoints\<close>, \<open>message_format\<close>, \<open>capabilities\<close> is absent from
  the schema, \<open>register_protocol\<close> returns failure with the validation message, every
  missing field occurs in the message, and the store is returned as it was: no schema
  file is written and no registry entry appended.
\<close>

theorem register_protocol_missing_field:
  assumes "field \<in> set required_fields" and "\<not> has_key schema field"
  shows "register_protocol str_lower now store schema registering_ai =
           (store, False,
            ''Schema missing required fields: '' @ join '', '' (missing_fields schema))
       \<and> (\<forall>f \<in> set required_fields. \<not> has_key schema f \<longrightarrow>
             sublist f (snd (snd (register_protocol str_lower now store schema registering_ai))))"
proof -
  from assms have "field \<in> set (missing_fields schema)"
    by (simp add: set_missing_fields)
  then have ne: "missing_fields schema \<noteq> []"
    by auto
  then have res: "register_protocol str_lower now store schema registering_ai =
           (store, False,
            ''Schema missing required fields: '' @ join '', '' (missing_fields schema))"
    by (simp add: register_protocol_def Let_def)
  have "\<forall>f \<in> set required_fields. \<not> has_key schema f \<longrightarrow>
          sublist f (''Schema missing required fields: '' @ join '', '' (missing_fields schema))"
  proof (intro ballI impI)
    fix f assume "f \<in> set required_fields" and "\<not> has_key schema f"
    then have "f \<in> set (missing_fields schema)"
      by (simp add: set_missing_fields)
    then have "sublist f (join '', '' (missing_fields schema))"
      by (rule sublist_join)
    then obtain ps ss where "join '', '' (missing_fields schema) = ps @ f @ ss"
      by (auto simp: sublist_def)
    then have "''Schema missing required fields: '' @ join '', '' (missing_fields schema)
                 = (''Schema missing required fields: '' @ ps) @ f @ ss"
      by simp
    then show "sublist f (''Schema missing required fields: '' @ join '', '' (missing_fields schema))"
      unfolding sublist_def by blast
  qed
  with res show ?thesis by simp
qed

theorem register_protocol_missing_field_witness:
  "''capabilities'' \<in> set required_fields
   \<and> \<not> has_key incomplete_schema ''capabilities''
   \<and> register_protocol ascii_lower ''t1'' empty_store incomplete_schema ''ai-7'' =
       (empty_store, False, ''Schema missing required fields: capabilities'')"
proof -
  have h1: "''capabilities'' \<in> set required_fields"
    by (simp add: required_fields_def)
  have h2: "\<not> has_key incomplete_schema ''capabilities''"
    by (simp add: has_key_def incomplete_schema_def example_schema_def)
  have m: "missing_fields incomplete_schema = [''capabilities'']"
    by (simp add: missing_fields_def required_fields_def has_key_def incomplete_schema_def
          example_schema_def)
  from register_protocol_missing_field [OF h1 h2, of ascii_lower "''t1''" empty_store "''ai-7''"] h1 h2 m
  show ?thesis by simp
qed

lemma derived_schema_id_example: "derived_schema_id ascii_lower ''Mesh Protocol'' ''2.1'' = ''mesh_protocol_2_1''"
  by code_simp

lemma registry_file_log: "registry_file (log_negotiation_event now store et d a) = registry_file store"
  by (simp add: log_negotiation_event_def Let_def)

lemma schema_files_log: "schema_files (log_negotiation_event now store et d a) = schema_files store"
  by (simp add: log_negotiation_event_def Let_def)

lemma primary_file_log: "primary_file (log_negotiation_event now store et d a) = primary_file store"
  by (simp add: log_negotiation_event_def Let_def)

lemma registry_file_set_primary:
  "registry_file (fst (set_primary_protocol now store sid rsn who)) = registry_file store"
  by (simp add: set_primary_protocol_def Let_def registry_file_log)

lemma schema_files_set_primary:
  "schema_files (fst (set_primary_protocol now store sid rsn who)) = schema_files store"
  by (simp add: set_primary_protocol_def Let_def schema_files_log)

lemma registry_file_negotiate:
  "registry_file (negotiate_primary_protocol now store) = registry_file store"
  by (simp add: negotiate_primary_protocol_def Let_def registry_file_set_primary
        split: sum.splits list.splits)

lemma schema_files_negotiate:
  "schema_files (negotiate_primary_protocol now store) = schema_files store"
  by (simp add: negotiate_primary_protocol_def Let_def schema_files_set_primary
        split: sum.splits list.splits)

lemma missing_fields_Nil:
  "missing_fields s = [] \<longleftrightarrow>
     name s \<noteq> None \<and> version s \<noteq> None \<and> author s \<noteq> None \<and> description s \<noteq> None
     \<and> endpoints s \<noteq> None \<and> message_format s \<noteq> None \<and> capabilities s \<noteq> None"
  by (simp add: missing_fields_def required_fields_def has_key_def)


lemma register_protocol_success:
  assumes "register_protocol str_lower now store s ai = (store', True, msg)"
    and "name s = Some nm" and "version s = Some ver" and "author s = Some auth"
    and "schema_id s = None"
  shows "\<not> list_ex (\<lambda>e. entry_schema_id e = derived_schema_id str_lower nm ver) (protocols (load_registry store))
       \<and> registry_file store' =
           Some ((load_registry store)
                   \<lparr>protocols := protocols (load_registry store) @
                      [\<lparr> entry_schema_id = derived_schema_id str_lower nm ver, entry_name = nm,
                         entry_version = ver, entry_author = auth,
                         entry_path = schema_path (derived_schema_id str_lower nm ver) \<rparr>],
                    registry_last_updated := Some now\<rparr>)
       \<and> schema_files store' =
           (schema_files store)(schema_path (derived_schema_id str_lower nm ver) \<mapsto>
              s\<lparr>schema_id := Some (derived_schema_id str_lower nm ver),
                compatibility := Some (case compatibility s of None \<Rightarrow> [] | Some cs \<Rightarrow> cs),
                created_at := Some now, usage_count := Some 0\<rparr>)"
proof -
  have m: "missing_fields s = []"
    using assms(1) by (auto simp: register_protocol_def Let_def split: if_splits)
  have nd: "\<not> list_ex (\<lambda>e. entry_schema_id e = derived_schema_id str_lower nm ver) (protocols (load_registry store))"
    using assms by (auto simp: register_protocol_def Let_def m split: if_splits)
  have "compatibility s = None \<or> (\<exists>cs. compatibility s = Some cs)"
    by (cases "compatibility s") simp_all
  then show ?thesis
    using assms nd
    by (auto simp: register_protocol_def Let_def m registry_file_negotiate schema_files_negotiate
          registry_file_log schema_files_log)
qed

text \<open>
  C9. Whatever the case mapping \<open>str_lower\<close> is: when a first schema has been
  registered under the id derived from its name and version, registering a second
  valid schema whose derived id is the same fails with the duplicate message and
  returns the store as it was; the registry then holds exactly one entry of that id,
  the first schema's, and the schema file of that id is the first schema's.
\<close>

theorem register_protocol_duplicate:
  assumes "register_protocol str_lower t1 store s1 ai1 = (store1, True, msg1)"
    and "schema_id s1 = None" and "name s1 = Some n1" and "version s1 = Some v1"
    and "author s1 = Some a1"
    and "missing_fields s2 = []"
    and "schema_id s2 = None" and "name s2 = Some n2" and "version s2 = Some v2"
    and "derived_schema_id str_lower n2 v2 = derived_schema_id str_lower n1 v1"
  shows "register_protocol str_lower t2 store1 s2 ai2 =
           (store1, False,
            ''Protocol schema with ID '' @ derived_schema_id str_lower n1 v1 @ '' already exists'')
       \<and> filter (\<lambda>e. entry_schema_id e = derived_schema_id str_lower n1 v1)
                (protocols (load_registry store1))
           = [\<lparr> entry_schema_id = derived_schema_id str_lower n1 v1, entry_name = n1, entry_version = v1,
                 entry_author = a1, entry_path = schema_path (derived_schema_id str_lower n1 v1) \<rparr>]
       \<and> schema_files store1 (schema_path (derived_schema_id str_lower n1 v1)) =
           Some (s1\<lparr>schema_id := Some (derived_schema_id str_lower n1 v1),
                    compatibility := Some (case compatibility s1 of None \<Rightarrow> [] | Some cs \<Rightarrow> cs),
                    created_at := Some t1, usage_count := Some 0\<rparr>)"
proof -
  let ?sid = "derived_schema_id str_lower n1 v1"
  let ?entry = "\<lparr> entry_schema_id = ?sid, entry_name = n1, entry_version = v1,
                  entry_author = a1, entry_path = schema_path ?sid \<rparr>"
  from register_protocol_success [OF assms(1) assms(3) assms(4) assms(5) assms(2)]
  have fresh: "\<not> list_ex (\<lambda>e. entry_schema_id e = ?sid) (protocols (load_registry store))"
    and reg: "registry_file store1 =
           Some ((load_registry store)
                   \<lparr>protocols := protocols (load_registry store) @ [?entry],
                    registry_last_updated := Some t1\<rparr>)"
    and files: "schema_files store1 =
           (schema_files store)(schema_path ?sid \<mapsto>
              s1\<lparr>schema_id := Some ?sid,
                compatibility := Some (case compatibility s1 of None \<Rightarrow> [] | Some cs \<Rightarrow> cs),
                created_at := Some t1, usage_count := Some 0\<rparr>)"
    by simp_all
  have prots: "protocols (load_registry store1) = protocols (load_registry store) @ [?entry]"
    using reg by (simp add: load_registry_def)
  have dup: "list_ex (\<lambda>e. entry_schema_id e = ?sid) (protocols (load_registry store1))"
    unfolding prots by (simp add: list_ex_iff)
  have second: "register_protocol str_lower t2 store1 s2 ai2 =
           (store1, False, ''Protocol schema with ID '' @ ?sid @ '' already exists'')"
  proof -
    from assms(6) obtain a2 where "author s2 = Some a2"
      by (auto simp: missing_fields_Nil)
    with assms(6-10) dup show ?thesis
      by (simp add: register_protocol_def Let_def)
  qed
  have "filter (\<lambda>e. entry_schema_id e = ?sid) (protocols (load_registry store)) = []"
    using fresh by (simp add: list_ex_iff filter_empty_conv)
  then have only: "filter (\<lambda>e. entry_schema_id e = ?sid) (protocols (load_registry store1)) = [?entry]"
    unfolding prots by simp
  from second only files show ?thesis
    by simp
qed


theorem register_protocol_duplicate_witness:
  "register_protocol ascii_lower ''t1'' empty_store example_schema ''ai-7'' =
     (fst (register_protocol ascii_lower ''t1'' empty_store example_schema ''ai-7''), True,
      ''Protocol schema mesh_protocol_2_1 registered successfully'')
   \<and> missing_fields (example_schema\<lparr>author := Some ''ai-9''\<rparr>) = []
   \<and> register_protocol ascii_lower ''t2'' (fst (register_protocol ascii_lower ''t1'' empty_store example_schema ''ai-7''))
         (example_schema\<lparr>author := Some ''ai-9''\<rparr>) ''ai-9'' =
       (fst (register_protocol ascii_lower ''t1'' empty_store example_schema ''ai-7''), False,
        ''Protocol schema with ID mesh_protocol_2_1 already exists'')
   \<and> map entry_author
        (filter (\<lambda>e. entry_schema_id e = ''mesh_protocol_2_1'')
           (protocols (load_registry (fst (register_protocol ascii_lower ''t1'' empty_store example_schema ''ai-7'')))))
       = [''ai-7'']"
proof -
  let ?store1 = "fst (register_protocol ascii_lower ''t1'' empty_store example_schema ''ai-7'')"
  have sid: "derived_schema_id ascii_lower ''Mesh Protocol'' ''2.1'' = ''mesh_protocol_2_1''"
    by (rule derived_schema_id_example)
  have m1: "missing_fields example_schema = []"
    by (simp add: missing_fields_Nil example_schema_def)
  have m2: "missing_fields (example_schema\<lparr>author := Some ''ai-9''\<rparr>) = []"
    by (simp add: missing_fields_Nil example_schema_def)
  have f1: "schema_id example_schema = None" "name example_schema = Some ''Mesh Protocol''"
      "version example_schema = Some ''2.1''" "author example_schema = Some ''ai-7''"
    by (simp_all add: example_schema_def)
  have "snd (register_protocol ascii_lower ''t1'' empty_store example_schema ''ai-7'') =
          (True, ''Protocol schema mesh_protocol_2_1 registered successfully'')"
    by (simp add: register_protocol_def Let_def m1 f1 sid empty_store_def load_registry_def)
  then have first: "register_protocol ascii_lower ''t1'' empty_store example_schema ''ai-7'' =
     (?store1, True, ''Protocol schema mesh_protocol_2_1 registered successfully'')"
    by (simp add: prod_eq_iff)
  have f2: "schema_id (example_schema\<lparr>author := Some ''ai-9''\<rparr>) = None"
      "name (example_schema\<lparr>author := Some ''ai-9''\<rparr>) = Some ''Mesh Protocol''"
      "version (example_schema\<lparr>author := Some ''ai-9''\<rparr>) = Some ''2.1''"
    by (simp_all add: example_schema_def)
  from register_protocol_duplicate [OF first f1 m2 f2 refl, of "''t2''" "''ai-9''"]
  have second: "register_protocol ascii_lower ''t2'' ?store1 (example_schema\<lparr>author := Some ''ai-9''\<rparr>) ''ai-9'' =
       (?store1, False, ''Protocol schema with ID mesh_protocol_2_1 already exists'')"
    and only: "map entry_author
        (filter (\<lambda>e. entry_schema_id e = ''mesh_protocol_2_1'') (protocols (load_registry ?store1)))
       = [''ai-7'']"
    by (simp_all add: sid)
  from first m2 second only show ?thesis
    by (intro conjI)
qed

section \<open>Properties of the negotiation\<close>

lemma py_sorted_rev_Nil: "py_sorted_rev key xs = [] \<longleftrightarrow> xs = []"
proof -
  have "length (py_sorted_rev key xs) = length xs"
    by (simp add: py_sorted_rev_def)
  then show ?thesis by (metis length_0_conv)
qed

lemma py_sorted_rev_head:
  assumes "py_sorted_rev key xs = b # rest"
  shows "\<exists>i < length xs. xs ! i = b
           \<and> (\<forall>j < length xs. key (xs ! j) \<le> key b)
           \<and> (\<forall>j < i. key (xs ! j) < key b)"
proof -
  have sorted: "sorted_wrt (\<lambda>a c. key c \<le> key a) (b # rest)"
    using descending_py_sorted_rev [of key xs] by (simp only: assms)
  have set_eq: "set xs = set (b # rest)"
    using set_py_sorted_rev [of key xs] by (simp only: assms)
  have max: "\<forall>x \<in> set xs. key x \<le> key b"
    using sorted set_eq by auto
  have "filter (\<lambda>x. key x = key b) xs = filter (\<lambda>x. key x = key b) (b # rest)"
    using stable_py_sorted_rev [of key "key b" xs] by (simp only: assms)
  then have "filter (\<lambda>x. key x = key b) xs = b # filter (\<lambda>x. key x = key b) rest"
    by simp
  then obtain us vs where split: "xs = us @ b # vs" and before: "\<forall>u \<in> set us. key u \<noteq> key b"
    by (auto simp: filter_eq_Cons_iff)
  have len: "length us < length xs" and at: "xs ! length us = b"
    using split by simp_all
  have lt: "\<forall>j < length us. key (xs ! j) < key b"
  proof (intro allI impI)
    fix j assume j: "j < length us"
    then have e: "xs ! j = us ! j" and m: "us ! j \<in> set us"
      using split by (simp_all add: nth_append)
    from m before have "key (us ! j) \<noteq> key b" by blast
    moreover from m split max have "key (us ! j) \<le> key b" by simp
    ultimately show "key (xs ! j) < key b" using e by simp
  qed
  have le: "\<forall>j < length xs. key (xs ! j) \<le> key b"
    using max by simp
  from len at le lt show ?thesis by blast
qed


lemma truthy_schema_id: "schema_id s \<noteq> None \<Longrightarrow> truthy_schema s"
  by (simp add: truthy_schema_def all_keys_def has_key_def)

lemma load_schemas_consistent:
  assumes "list_all (entry_ok store) ps"
  shows "length (load_schemas store ps) = length ps
       \<and> (\<forall>j < length ps. schema_id (load_schemas store ps ! j) = Some (entry_schema_id (ps ! j))
                           \<and> name (load_schemas store ps ! j) \<noteq> None)"
  using assms
proof (induction ps)
  case Nil
  then show ?case by simp
next
  case (Cons e ps)
  from Cons.prems obtain s where s: "schema_files store (schema_path (entry_schema_id e)) = Some s"
      "schema_id s = Some (entry_schema_id e)" "name s \<noteq> None"
    by (auto simp: entry_ok_def split: option.splits)
  then have t: "truthy_schema s"
    by (simp add: truthy_schema_id)
  have eq: "load_schemas store (e # ps) = s # load_schemas store ps"
    using s t by simp
  from Cons have IH: "length (load_schemas store ps) = length ps"
      "\<forall>j < length ps. schema_id (load_schemas store ps ! j) = Some (entry_schema_id (ps ! j))
                           \<and> name (load_schemas store ps ! j) \<noteq> None"
    by simp_all
  show ?case
    unfolding eq using IH s by (auto simp: nth_Cons split: nat.splits)
qed

lemma load_schemas_files:
  assumes "list_all (entry_ok store) ps"
  shows "\<forall>j < length ps.
           schema_files store (schema_path (entry_schema_id (ps ! j))) = Some (load_schemas store ps ! j)"
  using assms
proof (induction ps)
  case Nil
  then show ?case by simp
next
  case (Cons e ps)
  from Cons.prems obtain s where s: "schema_files store (schema_path (entry_schema_id e)) = Some s"
      "schema_id s = Some (entry_schema_id e)"
    by (auto simp: entry_ok_def split: option.splits)
  then have t: "truthy_schema s"
    by (simp add: truthy_schema_id)
  have eq: "load_schemas store (e # ps) = s # load_schemas store ps"
    using s t by simp
  from Cons have IH: "\<forall>j < length ps.
      schema_files store (schema_path (entry_schema_id (ps ! j))) = Some (load_schemas store ps ! j)"
    by simp
  show ?case
    unfolding eq using IH s(1) by (auto simp: nth_Cons split: nat.splits)
qed

lemma score_schema_present:
  assumes "schema_id s = Some sid" and "name s = Some nm"
  shows "score_schema cur s =
           Inr \<lparr> scored_schema_id = sid, scored_name = nm, score = negotiation_score cur s \<rparr>"
  using assms by (simp add: score_schema_def negotiation_score_def Let_def)

lemma score_schemas_present:
  assumes "\<forall>s \<in> set schemas. schema_id s \<noteq> None \<and> name s \<noteq> None"
  shows "\<exists>entries. score_schemas cur schemas = Inr entries
           \<and> length entries = length schemas
           \<and> (\<forall>j < length schemas. schema_id (schemas ! j) = Some (scored_schema_id (entries ! j))
                 \<and> score (entries ! j) = negotiation_score cur (schemas ! j))"
  using assms
proof (induction schemas)
  case Nil
  then show ?case by simp
next
  case (Cons s schemas)
  from Cons.prems obtain sid nm where s: "schema_id s = Some sid" "name s = Some nm"
    by auto
  from Cons obtain entries where e: "score_schemas cur schemas = Inr entries"
      "length entries = length schemas"
      "\<forall>j < length schemas. schema_id (schemas ! j) = Some (scored_schema_id (entries ! j))
                 \<and> score (entries ! j) = negotiation_score cur (schemas ! j)"
    by auto
  let ?e = "\<lparr> scored_schema_id = sid, scored_name = nm, score = negotiation_score cur s \<rparr>"
  have "score_schemas cur (s # schemas) = Inr (?e # entries)"
    using s e(1) by (simp add: score_schema_present)
  moreover have "length (?e # entries) = length (s # schemas)"
    using e(2) by simp
  moreover have "\<forall>j < length (s # schemas).
       schema_id ((s # schemas) ! j) = Some (scored_schema_id ((?e # entries) ! j))
       \<and> score ((?e # entries) ! j) = negotiation_score cur ((s # schemas) ! j)"
    using s e(3) by (auto simp: nth_Cons split: nat.splits)
  ultimately show ?case by blast
qed

lemma primary_file_set_primary:
  assumes "list_ex (\<lambda>protocol. entry_schema_id protocol = sid) (protocols (load_registry store))"
  shows "primary_file (fst (set_primary_protocol now store sid rsn who)) =
           Some \<lparr> primary_protocol = sid, decided_at = now, reason = rsn, decided_by = who \<rparr>"
  using assms by (simp add: set_primary_protocol_def Let_def primary_file_log)


text \<open>
  C2. Negotiation on a registry of at most one schema returns the store as it was, so
  the primary pointer is not written. On a consistent registry of two or more entries
  every entry's schema file is a candidate: the entry chosen is one whose schema has
  the highest score among the schema files of all the entries, the score being the
  number of capabilities plus twice the usage count plus three times the number of
  compatible schemas, plus 5 for the default schema and 10 for the current primary;
  the schema of every entry before it in registry order scores strictly less. When
  the entry chosen is the current primary the store is returned as it was; otherwise
  the primary pointer becomes that entry's id, with the reason
  \<open>Automatic negotiation: highest scoring protocol (<score> points)\<close> and \<open>decided_by\<close>
  \<open>ProtocolHarmonizer\<close>.
\<close>

theorem negotiate_primary_protocol_correct:
  "(length (protocols (load_registry store)) \<le> 1 \<longrightarrow>
      negotiate_primary_protocol now store = store)
   \<and> (2 \<le> length (protocols (load_registry store)) \<and> registry_consistent store \<longrightarrow>
        (\<exists>i w.
            i < length (protocols (load_registry store))
          \<and> schema_files store
                (schema_path (entry_schema_id (protocols (load_registry store) ! i))) = Some w
          \<and> (\<forall>j < length (protocols (load_registry store)).
                \<exists>s. schema_files store
                       (schema_path (entry_schema_id (protocols (load_registry store) ! j))) = Some s
                  \<and> negotiation_score (map_option primary_protocol (primary_file store)) s
                    \<le> negotiation_score (map_option primary_protocol (primary_file store)) w)
          \<and> (\<forall>j < i.
                \<exists>s. schema_files store
                       (schema_path (entry_schema_id (protocols (load_registry store) ! j))) = Some s
                  \<and> negotiation_score (map_option primary_protocol (primary_file store)) s
                    < negotiation_score (map_option primary_protocol (primary_file store)) w)
          \<and> (if Some (entry_schema_id (protocols (load_registry store) ! i))
                   = map_option primary_protocol (primary_file store)
              then negotiate_primary_protocol now store = store
              else primary_file (negotiate_primary_protocol now store) =
                     Some \<lparr> primary_protocol = entry_schema_id (protocols (load_registry store) ! i),
                            decided_at = now,
                            reason = ''Automatic negotiation: highest scoring protocol ('' @
                                     str_int (negotiation_score
                                        (map_option primary_protocol (primary_file store)) w)
                                     @ '' points)'',
                            decided_by = ''ProtocolHarmonizer'' \<rparr>)))"
proof (intro conjI impI)
  assume "length (protocols (load_registry store)) \<le> 1"
  then show "negotiate_primary_protocol now store = store"
    by (simp add: negotiate_primary_protocol_def Let_def)
next
  let ?ps = "protocols (load_registry store)"
  let ?schemas = "load_schemas store ?ps"
  let ?cur = "map_option primary_protocol (primary_file store)"
  let ?file = "\<lambda>j. schema_files store (schema_path (entry_schema_id (?ps ! j)))"
  assume a: "2 \<le> length ?ps \<and> registry_consistent store"
  then have many: "\<not> length ?ps \<le> 1" and ok: "list_all (entry_ok store) ?ps"
    by (simp_all add: registry_consistent_def)
  from load_schemas_consistent [OF ok]
  have len: "length ?schemas = length ?ps"
    and ids: "\<forall>j < length ?ps. schema_id (?schemas ! j) = Some (entry_schema_id (?ps ! j))
                \<and> name (?schemas ! j) \<noteq> None"
    by simp_all
  have files: "\<forall>j < length ?ps. ?file j = Some (?schemas ! j)"
    by (rule load_schemas_files [OF ok])
  have present: "\<forall>s \<in> set ?schemas. schema_id s \<noteq> None \<and> name s \<noteq> None"
    using ids len by (auto simp: in_set_conv_nth)
  from score_schemas_present [OF present, of ?cur]
  obtain entries where e: "score_schemas ?cur ?schemas = Inr entries"
      "length entries = length ?schemas"
      "\<forall>j < length ?schemas. schema_id (?schemas ! j) = Some (scored_schema_id (entries ! j))
                 \<and> score (entries ! j) = negotiation_score ?cur (?schemas ! j)"
    by blast
  have "entries \<noteq> []"
    using e(2) len a by auto
  then obtain best rest where sorted: "py_sorted_rev score entries = best # rest"
    by (cases "py_sorted_rev score entries") (simp_all add: py_sorted_rev_Nil)
  from py_sorted_rev_head [OF sorted]
  obtain i where i: "i < length entries" "entries ! i = best"
      "\<forall>j < length entries. score (entries ! j) \<le> score best"
      "\<forall>j < i. score (entries ! j) < score best"
    by blast
  let ?sid = "scored_schema_id best"
  let ?w = "?schemas ! i"
  have i_len: "i < length ?ps"
    using i(1) e(2) len by simp
  have sid: "schema_id ?w = Some ?sid"
    and sc: "score best = negotiation_score ?cur ?w"
    using e(3) i_len len i(2) by auto
  have entry: "entry_schema_id (?ps ! i) = ?sid"
    using ids i_len sid by auto
  have w: "?file i = Some ?w"
    using files i_len by simp
  have le: "\<forall>j < length ?ps. \<exists>s. ?file j = Some s
              \<and> negotiation_score ?cur s \<le> negotiation_score ?cur ?w"
  proof (intro allI impI)
    fix j assume j: "j < length ?ps"
    then have "?file j = Some (?schemas ! j)"
      using files by simp
    moreover have "negotiation_score ?cur (?schemas ! j) \<le> negotiation_score ?cur ?w"
      using j i(3) e(2) e(3) len sc by auto
    ultimately show "\<exists>s. ?file j = Some s
              \<and> negotiation_score ?cur s \<le> negotiation_score ?cur ?w"
      by blast
  qed
  have lt: "\<forall>j < i. \<exists>s. ?file j = Some s
              \<and> negotiation_score ?cur s < negotiation_score ?cur ?w"
  proof (intro allI impI)
    fix j assume j: "j < i"
    with i_len have jl: "j < length ?ps" by simp
    then have "?file j = Some (?schemas ! j)"
      using files by simp
    moreover have "negotiation_score ?cur (?schemas ! j) < negotiation_score ?cur ?w"
      using j jl i(4) e(3) len sc by auto
    ultimately show "\<exists>s. ?file j = Some s
              \<and> negotiation_score ?cur s < negotiation_score ?cur ?w"
      by blast
  qed
  have in_registry: "list_ex (\<lambda>protocol. entry_schema_id protocol = ?sid) ?ps"
  proof -
    have "?ps ! i \<in> set ?ps"
      using i_len by simp
    with entry show ?thesis
      by (auto simp: list_ex_iff)
  qed
  have run: "negotiate_primary_protocol now store =
               (if Some ?sid \<noteq> ?cur
                then fst (set_primary_protocol now store ?sid (negotiation_reason (score best))
                            ''ProtocolHarmonizer'')
                else store)"
    using many e(1) sorted by (simp add: negotiate_primary_protocol_def Let_def)
  have outcome: "if Some (entry_schema_id (?ps ! i)) = ?cur
              then negotiate_primary_protocol now store = store
              else primary_file (negotiate_primary_protocol now store) =
                     Some \<lparr> primary_protocol = entry_schema_id (?ps ! i), decided_at = now,
                            reason = ''Automatic negotiation: highest scoring protocol ('' @
                                     str_int (negotiation_score ?cur ?w)
                                     @ '' points)'',
                            decided_by = ''ProtocolHarmonizer'' \<rparr>"
    unfolding entry
    using run primary_file_set_primary [OF in_registry, of now "negotiation_reason (score best)" "''ProtocolHarmonizer''"]
    by (simp add: negotiation_reason_def sc)
  from i_len w le lt outcome
  show "\<exists>i w.
            i < length ?ps
          \<and> ?file i = Some w
          \<and> (\<forall>j < length ?ps. \<exists>s. ?file j = Some s
                \<and> negotiation_score ?cur s \<le> negotiation_score ?cur w)
          \<and> (\<forall>j < i. \<exists>s. ?file j = Some s
                \<and> negotiation_score ?cur s < negotiation_score ?cur w)
          \<and> (if Some (entry_schema_id (?ps ! i)) = ?cur
              then negotiate_primary_protocol now store = store
              else primary_file (negotiate_primary_protocol now store) =
                     Some \<lparr> primary_protocol = entry_schema_id (?ps ! i), decided_at = now,
                            reason = ''Automatic negotiation: highest scoring protocol ('' @
                                     str_int (negotiation_score ?cur w)
                                     @ '' points)'',
                            decided_by = ''ProtocolHarmonizer'' \<rparr>)"
    by (intro exI [of _ i] exI [of _ ?w] conjI)
qed

lemma str_int_11: "str_int 11 = ''11''"
  by code_simp

lemma load_schemas_example:
  "load_schemas example_registry (protocols (load_registry example_registry)) = [schema_A, schema_B]"
proof -
  have "schema_path ''A'' \<noteq> schema_path ''B''"
    by (simp add: schema_path_def)
  moreover have "truthy_schema schema_A" "truthy_schema schema_B"
    by (simp_all add: truthy_schema_id schema_A_def schema_B_def)
  ultimately show ?thesis
    by (simp add: example_registry_def load_registry_def)
qed

lemma scores_example:
  "negotiation_score None schema_A = 2" "negotiation_score None schema_B = 11"
  by (simp_all add: negotiation_score_def schema_A_def schema_B_def DEFAULT_SCHEMA_ID_def)

theorem negotiate_primary_protocol_correct_witness:
  "length (protocols (load_registry empty_store)) \<le> 1
   \<and> negotiate_primary_protocol ''t1'' empty_store = empty_store
   \<and> 2 \<le> length (protocols (load_registry example_registry))
   \<and> registry_consistent example_registry
   \<and> negotiation_score None schema_A = 2
   \<and> negotiation_score None schema_B = 11
   \<and> primary_file (negotiate_primary_protocol ''t1'' example_registry) =
       Some \<lparr> primary_protocol = ''B'', decided_at = ''t1'',
              reason = ''Automatic negotiation: highest scoring protocol (11 points)'',
              decided_by = ''ProtocolHarmonizer'' \<rparr>"
proof -
  let ?ps = "protocols (load_registry example_registry)"
  let ?file = "\<lambda>j. schema_files example_registry (schema_path (entry_schema_id (?ps ! j)))"
  have h0: "length (protocols (load_registry empty_store)) \<le> 1"
    by (simp add: empty_store_def load_registry_def)
  with negotiate_primary_protocol_correct [of empty_store "''t1''"]
  have r0: "negotiate_primary_protocol ''t1'' empty_store = empty_store"
    by blast
  have h1: "2 \<le> length ?ps"
    by (simp add: example_registry_def load_registry_def)
  have neq: "schema_path ''A'' \<noteq> schema_path ''B''"
    by (simp add: schema_path_def)
  have h2: "registry_consistent example_registry"
    using neq
    by (simp add: registry_consistent_def entry_ok_def example_registry_def load_registry_def
          schema_A_def schema_B_def)
  have cur: "map_option primary_protocol (primary_file example_registry) = None"
    by (simp add: example_registry_def)
  have len: "length ?ps = 2"
    by (simp add: example_registry_def load_registry_def)
  have f0: "?file 0 = Some schema_A" and f1: "?file 1 = Some schema_B"
    and id1: "entry_schema_id (?ps ! 1) = ''B''"
    using neq by (simp_all add: example_registry_def load_registry_def)
  from negotiate_primary_protocol_correct [of example_registry "''t1''"] h1 h2
  obtain i w where i: "i < length ?ps"
      "?file i = Some w"
      "\<forall>j < length ?ps. \<exists>s. ?file j = Some s
          \<and> negotiation_score None s \<le> negotiation_score None w"
      "primary_file (negotiate_primary_protocol ''t1'' example_registry) =
         Some \<lparr> primary_protocol = entry_schema_id (?ps ! i), decided_at = ''t1'',
                reason = ''Automatic negotiation: highest scoring protocol ('' @
                         str_int (negotiation_score None w) @ '' points)'',
                decided_by = ''ProtocolHarmonizer'' \<rparr>"
    unfolding cur by (auto split: if_splits)
  have "i = 1"
  proof (rule ccontr)
    assume "i \<noteq> 1"
    with i(1) len have "i = 0"
      by simp
    with i(2) f0 have w: "w = schema_A"
      by simp
    have "(1::nat) < length ?ps"
      using len by simp
    with i(3) obtain s where "?file 1 = Some s"
        "negotiation_score None s \<le> negotiation_score None w"
      by blast
    with f1 w have "negotiation_score None schema_B \<le> negotiation_score None schema_A"
      by simp
    then show False
      by (simp add: scores_example)
  qed
  with i(2) f1 have w: "w = schema_B"
    by simp
  have r1: "primary_file (negotiate_primary_protocol ''t1'' example_registry) =
       Some \<lparr> primary_protocol = ''B'', decided_at = ''t1'',
              reason = ''Automatic negotiation: highest scoring protocol (11 points)'',
              decided_by = ''ProtocolHarmonizer'' \<rparr>"
    using i(4) \<open>i = 1\<close> w id1
    by (simp add: scores_example str_int_11)
  from h0 r0 h1 h2 scores_example r1 show ?thesis
    by (intro conjI)
qed

section \<open>Registration keeps the registry consistent\<close>

text \<open>
  The consistency assumed of the registry in the negotiation is what
  \<open>register_protocol\<close> establishes: a registration under a derived id, successful or
  not, takes a consistent store to a consistent store.
\<close>

lemma schema_path_inject: "schema_path a = schema_path b \<longleftrightarrow> a = b"
  by (simp add: schema_path_def)

lemma entry_ok_cong:
  assumes "schema_files store' (schema_path (entry_schema_id e)) =
           schema_files store (schema_path (entry_schema_id e))"
  shows "entry_ok store' e = entry_ok store e"
  using assms by (simp add: entry_ok_def)

lemma register_protocol_failure_store:
  "register_protocol str_lower now store s ai = (store', False, msg) \<Longrightarrow> store' = store"
  by (auto simp: register_protocol_def Let_def split: if_splits option.splits)

lemma register_protocol_consistent:
  assumes "registry_consistent store" and "schema_id s = None"
  shows "registry_consistent (fst (register_protocol str_lower now store s ai))"
proof (cases "fst (snd (register_protocol str_lower now store s ai))")
  case False
  then have "register_protocol str_lower now store s ai =
               (fst (register_protocol str_lower now store s ai), False, snd (snd (register_protocol str_lower now store s ai)))"
    by (simp add: prod_eq_iff)
  then have "fst (register_protocol str_lower now store s ai) = store"
    by (rule register_protocol_failure_store)
  with assms(1) show ?thesis by simp
next
  case True
  let ?store' = "fst (register_protocol str_lower now store s ai)"
  from True have res: "register_protocol str_lower now store s ai =
               (?store', True, snd (snd (register_protocol str_lower now store s ai)))"
    by (simp add: prod_eq_iff)
  then have m: "missing_fields s = []"
    by (auto simp: register_protocol_def Let_def split: if_splits)
  then obtain nm ver auth where f: "name s = Some nm" "version s = Some ver" "author s = Some auth"
    by (auto simp: missing_fields_Nil)
  let ?sid = "derived_schema_id str_lower nm ver"
  let ?s' = "s\<lparr>schema_id := Some ?sid,
                compatibility := Some (case compatibility s of None \<Rightarrow> [] | Some cs \<Rightarrow> cs),
                created_at := Some now, usage_count := Some 0\<rparr>"
  let ?entry = "\<lparr> entry_schema_id = ?sid, entry_name = nm, entry_version = ver,
                  entry_author = auth, entry_path = schema_path ?sid \<rparr>"
  from register_protocol_success [OF res f assms(2)]
  have fresh: "\<not> list_ex (\<lambda>e. entry_schema_id e = ?sid) (protocols (load_registry store))"
    and reg: "registry_file ?store' =
           Some ((load_registry store)
                   \<lparr>protocols := protocols (load_registry store) @ [?entry],
                    registry_last_updated := Some now\<rparr>)"
    and files: "schema_files ?store' = (schema_files store)(schema_path ?sid \<mapsto> ?s')"
    by simp_all
  have prots: "protocols (load_registry ?store') = protocols (load_registry store) @ [?entry]"
    using reg by (simp add: load_registry_def)
  have old: "list_all (entry_ok ?store') (protocols (load_registry store))"
    unfolding list_all_iff
  proof
    fix e assume e: "e \<in> set (protocols (load_registry store))"
    with fresh have "entry_schema_id e \<noteq> ?sid"
      by (auto simp: list_ex_iff)
    then have "schema_files ?store' (schema_path (entry_schema_id e)) =
                 schema_files store (schema_path (entry_schema_id e))"
      by (simp add: files schema_path_inject)
    then have "entry_ok ?store' e = entry_ok store e"
      by (rule entry_ok_cong)
    with assms(1) e show "entry_ok ?store' e"
      by (simp add: registry_consistent_def list_all_iff)
  qed
  have new: "entry_ok ?store' ?entry"
    using f by (simp add: entry_ok_def files)
  from old new show ?thesis
    by (simp add: registry_consistent_def prots)
qed


end
